theory Spec2Isabelle
  imports Complex_Main "HOL-Library.Log_Nat" "HOL-Library.Signed_Division"
begin

section \<open>Machine integers\<close>

text \<open>
  Go's \<open>int\<close> is taken to be 64 bits wide (amd64, arm64). Values are modelled as \<open>int\<close>;
  every subtraction of the source that can leave the 64-bit range is wrapped by
  \<open>wrap64\<close> (two's complement). Go's \<open>/\<close> and \<open>%\<close> truncate towards zero: they are
  \<open>sdiv\<close> and \<open>smod\<close>.
\<close>

definition is_int64 :: "int \<Rightarrow> bool" where
  "is_int64 x = (- (2 ^ 63) \<le> x \<and> x < 2 ^ 63)"

definition wrap64 :: "int \<Rightarrow> int" where
  "wrap64 x = (x + 2 ^ 63) mod 2 ^ 64 - 2 ^ 63"

section \<open>Calendar time\<close>

text \<open>
  A \<open>time.Time\<close> in the UTC location (every time of the repository is built with
  \<open>time.UTC\<close>), held as its civil date and the nanoseconds since midnight. The values Go
  can produce are the normalised ones, \<open>valid_time\<close>. On those, \<open>Before\<close> (comparison of
  instants) is the lexicographic order on year, month, day and time of day; it is
  written on the month index \<open>12 * year + month - 1\<close>. Overflow of Go's 64-bit count
  of seconds (years beyond about 292 billion) is outside the model.
\<close>

record Time =
  Year :: int
  Month :: int
  Day :: int
  Nsec :: int

definition Date :: "int \<Rightarrow> int \<Rightarrow> int \<Rightarrow> Time" where
  \<comment> \<open>\<open>time.Date(y, m, d, 0, 0, 0, 0, time.UTC)\<close> for a normalised date\<close>
  "Date y m d = \<lparr>Year = y, Month = m, Day = d, Nsec = 0\<rparr>"

definition zeroTime :: Time where
  \<comment> \<open>the zero value of \<open>time.Time\<close>: January 1, year 1, 00:00:00 UTC\<close>
  "zeroTime = Date 1 1 1"

definition isLeap :: "int \<Rightarrow> bool" where
  "isLeap y = (y mod 4 = 0 \<and> (y mod 100 \<noteq> 0 \<or> y mod 400 = 0))"

definition daysIn :: "int \<Rightarrow> int \<Rightarrow> int" where
  "daysIn m y =
     (if m = 2 then (if isLeap y then 29 else 28)
      else if m = 4 \<or> m = 6 \<or> m = 9 \<or> m = 11 then 30 else 31)"

definition valid_time :: "Time \<Rightarrow> bool" where
  "valid_time t =
     (1 \<le> Month t \<and> Month t \<le> 12 \<and> 1 \<le> Day t \<and> Day t \<le> daysIn (Month t) (Year t)
      \<and> 0 \<le> Nsec t \<and> Nsec t < 86400000000000)"

definition monthIndex :: "Time \<Rightarrow> int" where
  "monthIndex t = 12 * Year t + (Month t - 1)"

definition Before :: "Time \<Rightarrow> Time \<Rightarrow> bool" where
  "Before t u =
     (monthIndex t < monthIndex u
      \<or> (monthIndex t = monthIndex u
          \<and> (Day t < Day u \<or> (Day t = Day u \<and> Nsec t < Nsec u))))"

text \<open>
  \<open>t.AddDate(0, months, 0)\<close>. Go calls \<open>Date(year, month + months, day, ...)\<close>, which
  first carries the month into the year and then counts the day from the first of that
  month, so a day past the end of the month runs over into the next one (October 31 plus
  one month is December 1). The day of a normalised date is at most 31 and a month has at
  least 28 days, so the overflow is carried once.
\<close>

definition AddDate_months :: "Time \<Rightarrow> int \<Rightarrow> Time" where
  "AddDate_months t months =
     (let mi = monthIndex t + months;
          y = mi div 12;
          m = mi mod 12 + 1
      in if Day t > daysIn m y
         then t\<lparr>Year := (mi + 1) div 12, Month := (mi + 1) mod 12 + 1,
                Day := Day t - daysIn m y\<rparr>
         else t\<lparr>Year := y, Month := m\<rparr>)"

definition addMonths :: "Time \<Rightarrow> int \<Rightarrow> Time" where
  "addMonths t months = AddDate_months t months"

text \<open>
  The loop of \<open>monthsBetween\<close>, with its three locals. \<open>month\<close> and \<open>year\<close> are written
  in the loop and never read for the result. The counter cannot overflow: the times Go
  can represent span fewer than \<open>2 ^ 63\<close> months.
\<close>

function monthsBetween_loop :: "Time \<Rightarrow> Time \<Rightarrow> int \<Rightarrow> int \<Rightarrow> int \<Rightarrow> int" where
  "monthsBetween_loop start endt months month year =
     (if Before start endt
      then (let start' = AddDate_months start 1;
                months' = months + 1;
                month' = (if Month start' \<noteq> month then Month start' else month);
                year' = (if Year start' \<noteq> year then Year start' else year)
            in monthsBetween_loop start' endt months' month' year')
      else months)"
  by pat_completeness auto

termination monthsBetween_loop
proof (relation "measure (\<lambda>(start, endt, months, month, year).
                   nat (monthIndex endt + 1 - monthIndex start))")
  show "wf (measure (\<lambda>(start, endt, months, month, year).
                   nat (monthIndex endt + 1 - monthIndex start)))"
    by simp
next
  fix start endt :: Time and months month year :: int and x xa xb xc
  assume b: "Before start endt" and x: "x = AddDate_months start 1"
  from b have "monthIndex start \<le> monthIndex endt"
    by (auto simp: Before_def)
  moreover have "monthIndex start < monthIndex x"
    unfolding x by (simp add: AddDate_months_def monthIndex_def Let_def)
  ultimately show "((x, endt, xa, xb, xc), start, endt, months, month, year)
      \<in> measure (\<lambda>(start, endt, months, month, year).
                   nat (monthIndex endt + 1 - monthIndex start))"
    by simp
qed

declare monthsBetween_loop.simps [simp del]

definition monthsBetween :: "Time \<Rightarrow> Time \<Rightarrow> int" where
  "monthsBetween start endt = monthsBetween_loop start endt 0 (Month start) (Year start)"

section \<open>float64\<close>

text \<open>
  IEEE 754 binary64 with the default rounding (to nearest, ties to even): an operation
  returns the exact real result rounded by \<open>rnd\<close> to 53 significant bits, with gradual
  underflow below \<open>2 ^ - 1022\<close> and overflow to an infinity from \<open>2 ^ 1024\<close>. The two
  zeros are one value \<open>Finite 0\<close>: the sign of a zero shows only when the zero is a
  divisor, and every divisor of the program is the conversion of an integer or the
  constant \<open>12.0\<close>, never a negative zero. Every operation is rounded on its own, as
  the amd64 compiler does it: a multiplication and an addition are not fused.
\<close>

datatype float64 = Finite real | PosInf | NegInf | NaN

definition pow2 :: "int \<Rightarrow> real" where
  "pow2 e = (if 0 \<le> e then 2 ^ nat e else 1 / 2 ^ nat (- e))"

definition flog2 :: "real \<Rightarrow> int" where
  \<comment> \<open>\<open>\<lfloor>log\<^sub>2 a\<rfloor>\<close> for \<open>a > 0\<close>\<close>
  "flog2 a = (if 1 \<le> a then bitlen \<lfloor>a\<rfloor> - 1 else - bitlen (\<lceil>1 / a\<rceil> - 1))"

definition round_half_even :: "real \<Rightarrow> int" where
  "round_half_even y =
     (let f = \<lfloor>y\<rfloor>; d = y - of_int f
      in if d < 1 / 2 then f else if 1 / 2 < d then f + 1
         else if even f then f else f + 1)"

definition rnd :: "real \<Rightarrow> float64" where
  "rnd x =
     (if x = 0 then Finite 0
      else let a = \<bar>x\<bar>;
               e = max (flog2 a - 52) (- 1074);
               v = of_int (round_half_even (a / pow2 e)) * pow2 e
           in if 2 ^ 1024 \<le> v then (if 0 < x then PosInf else NegInf)
              else Finite (sgn x * v))"

definition float64_const :: "real \<Rightarrow> float64" where
  \<comment> \<open>a floating-point literal of the source, converted to float64\<close>
  "float64_const c = rnd c"

definition float64_of_int :: "int \<Rightarrow> float64" where
  \<comment> \<open>the conversion \<open>float64(n)\<close>\<close>
  "float64_of_int n = rnd (of_int n)"

fun fadd :: "float64 \<Rightarrow> float64 \<Rightarrow> float64" where
  "fadd (Finite a) (Finite b) = rnd (a + b)"
| "fadd NaN y = NaN"
| "fadd x NaN = NaN"
| "fadd PosInf NegInf = NaN"
| "fadd NegInf PosInf = NaN"
| "fadd PosInf y = PosInf"
| "fadd NegInf y = NegInf"
| "fadd (Finite a) y = y"

fun fmul :: "float64 \<Rightarrow> float64 \<Rightarrow> float64" where
  "fmul (Finite a) (Finite b) = rnd (a * b)"
| "fmul NaN y = NaN"
| "fmul x NaN = NaN"
| "fmul (Finite a) PosInf = (if a = 0 then NaN else if 0 < a then PosInf else NegInf)"
| "fmul (Finite a) NegInf = (if a = 0 then NaN else if 0 < a then NegInf else PosInf)"
| "fmul PosInf (Finite b) = (if b = 0 then NaN else if 0 < b then PosInf else NegInf)"
| "fmul NegInf (Finite b) = (if b = 0 then NaN else if 0 < b then NegInf else PosInf)"
| "fmul PosInf PosInf = PosInf"
| "fmul NegInf NegInf = PosInf"
| "fmul PosInf NegInf = NegInf"
| "fmul NegInf PosInf = NegInf"

fun fdiv :: "float64 \<Rightarrow> float64 \<Rightarrow> float64" where
  "fdiv (Finite a) (Finite b) =
     (if b = 0 then (if a = 0 then NaN else if 0 < a then PosInf else NegInf)
      else rnd (a / b))"
| "fdiv NaN y = NaN"
| "fdiv x NaN = NaN"
| "fdiv (Finite a) y = Finite 0"
| "fdiv PosInf (Finite b) = (if 0 \<le> b then PosInf else NegInf)"
| "fdiv NegInf (Finite b) = (if 0 \<le> b then NegInf else PosInf)"
| "fdiv x y = NaN"

fun Floor :: "float64 \<Rightarrow> float64" where
  \<comment> \<open>\<open>math.Floor\<close>\<close>
  "Floor (Finite a) = Finite (of_int \<lfloor>a\<rfloor>)"
| "Floor x = x"

text \<open>
  The conversion \<open>int(f)\<close> discards the fraction (truncation towards zero). When the
  truncated value is not an \<open>int\<close>, or \<open>f\<close> is an infinity or a NaN, the Go
  specification leaves the result to the implementation: the parameter \<open>oor\<close> stands
  for what the platform returns there. \<open>oor_amd64\<close> is what amd64 returns.
\<close>

definition int_of_float64 :: "(float64 \<Rightarrow> int) \<Rightarrow> float64 \<Rightarrow> int" where
  "int_of_float64 oor f =
     (case f of
        Finite a \<Rightarrow>
          (let t = (if 0 \<le> a then \<lfloor>a\<rfloor> else \<lceil>a\<rceil>)
           in if is_int64 t then t else oor f)
      | _ \<Rightarrow> oor f)"

definition oor_amd64 :: "float64 \<Rightarrow> int" where
  "oor_amd64 f = - (2 ^ 63)"

section \<open>Data model (models.go)\<close>

record VestingSchedule =
  CliffMonths :: int
  VestingMonths :: int
  VestingType :: string

record Employee =
  ID :: string
  Name :: string
  StartDate :: Time
  TotalUnits :: int
  Schedule :: VestingSchedule

record VestingResult =
  EmployeeID :: string
  VestedUnits :: int
  UnvestedUnits :: int
  NextVestDate :: Time
  AsOfDate :: Time

record VestingCache =
  results :: "string \<rightharpoonup> VestingResult"

definition NewVestingCache :: VestingCache where
  "NewVestingCache = \<lparr>results = Map.empty\<rparr>"

text \<open>The service; its mutex \<open>mu\<close> holds no data and is modelled by the lock actions below.\<close>

record VestingService =
  cache :: VestingCache

definition NewVestingService :: VestingService where
  "NewVestingService = \<lparr>cache = NewVestingCache\<rparr>"

text \<open>The errors the code builds with \<open>fmt.Errorf\<close>, one constructor for each message.\<close>

datatype error =
    InvalidTotalUnits int
  | ResultNotFound string
  | CliffMonthsNegative
  | VestingMonthsNotGreater
  | InvalidVestingType string

section \<open>The vesting calculation (vesting_service.go)\<close>

definition ValidateSchedule :: "VestingSchedule \<Rightarrow> error option" where
  \<comment> \<open>\<open>None\<close> is the \<open>nil\<close> error\<close>
  "ValidateSchedule schedule =
     (if CliffMonths schedule < 0 then Some CliffMonthsNegative
      else if VestingMonths schedule \<le> CliffMonths schedule then Some VestingMonthsNotGreater
      else if VestingType schedule \<noteq> ''linear'' \<and> VestingType schedule \<noteq> ''backloaded''
        then Some (InvalidVestingType (VestingType schedule))
      else None)"

definition vestingMonthsAfterCliff :: "VestingSchedule \<Rightarrow> int" where
  \<comment> \<open>\<open>employee.Schedule.VestingMonths - employee.Schedule.CliffMonths\<close>\<close>
  "vestingMonthsAfterCliff schedule = wrap64 (VestingMonths schedule - CliffMonths schedule)"

definition linearVested :: "(float64 \<Rightarrow> int) \<Rightarrow> Employee \<Rightarrow> int \<Rightarrow> int" where
  \<comment> \<open>the branch \<open>VestingType == "linear"\<close>\<close>
  "linearVested oor employee monthsEmployed =
     (let monthsVested0 = wrap64 (monthsEmployed - CliffMonths (Schedule employee));
          monthsVested =
            (if monthsVested0 > vestingMonthsAfterCliff (Schedule employee)
             then vestingMonthsAfterCliff (Schedule employee) else monthsVested0);
          unitsPerMonth =
            fdiv (float64_of_int (TotalUnits employee))
                 (float64_of_int (vestingMonthsAfterCliff (Schedule employee)))
      in int_of_float64 oor (fmul unitsPerMonth (float64_of_int monthsVested)))"

definition percentages :: "float64 list" where
  "percentages =
     [float64_const (1 / 10), float64_const (2 / 10), float64_const (3 / 10),
      float64_const (4 / 10)]"

text \<open>
  The loop \<open>for i := 0; i <= yearsVested && i < len(percentages); i++\<close>. It starts at
  \<open>i = 0\<close> and stops before \<open>len(percentages)\<close>, so every read is in range.
\<close>

function totalPercent_loop :: "int \<Rightarrow> int \<Rightarrow> float64 \<Rightarrow> float64" where
  "totalPercent_loop i yearsVested totalPercent =
     (if i \<le> yearsVested \<and> i < int (length percentages)
      then totalPercent_loop (i + 1) yearsVested (fadd totalPercent (percentages ! nat i))
      else totalPercent)"
  by pat_completeness auto
termination
  by (relation "measure (\<lambda>(i, yearsVested, totalPercent). nat (int (length percentages) - i))")
     auto

declare totalPercent_loop.simps [simp del]

text \<open>
  The branch \<open>VestingType == "backloaded"\<close>. The read \<open>percentages[yearsVested]\<close> is
  guarded by \<open>yearsVested < len(percentages)\<close> and a positive remainder; a positive
  remainder of Go's truncating division means a non-negative quotient, so the index is
  in range whenever the read is reached.
\<close>

definition backloadedVested :: "(float64 \<Rightarrow> int) \<Rightarrow> Employee \<Rightarrow> int \<Rightarrow> int" where
  "backloadedVested oor employee monthsEmployed =
     (let yearsVested = wrap64 (monthsEmployed - CliffMonths (Schedule employee)) sdiv 12;
          totalPercent = totalPercent_loop 0 yearsVested (Finite 0);
          monthsInCurrentYear =
            wrap64 (monthsEmployed - CliffMonths (Schedule employee)) smod 12;
          totalPercent' =
            (if yearsVested < int (length percentages) \<and> monthsInCurrentYear > 0
             then (let currentYearPercent =
                         fmul (percentages ! nat yearsVested)
                              (fdiv (float64_of_int monthsInCurrentYear) (float64_const 12))
                   in fadd totalPercent currentYearPercent)
             else totalPercent)
      in int_of_float64 oor (Floor (fmul (float64_of_int (TotalUnits employee)) totalPercent')))"

definition calculateVesting ::
    "(float64 \<Rightarrow> int) \<Rightarrow> Employee \<Rightarrow> Time \<Rightarrow> error + VestingResult" where
  "calculateVesting oor employee asOfDate =
     (if TotalUnits employee \<le> 0 then Inl (InvalidTotalUnits (TotalUnits employee))
      else
        let monthsEmployed = monthsBetween (StartDate employee) asOfDate in
        if monthsEmployed < CliffMonths (Schedule employee)
        then Inr \<lparr>EmployeeID = ID employee,
                  VestedUnits = 0,
                  UnvestedUnits = TotalUnits employee,
                  NextVestDate = addMonths (StartDate employee) (CliffMonths (Schedule employee)),
                  AsOfDate = asOfDate\<rparr>
        else
          let vestedUnits =
                (if VestingType (Schedule employee) = ''linear''
                 then linearVested oor employee monthsEmployed
                 else if VestingType (Schedule employee) = ''backloaded''
                 then backloadedVested oor employee monthsEmployed
                 else 0);
              nextVestDate =
                (if vestedUnits < TotalUnits employee then addMonths asOfDate 1 else zeroTime)
          in Inr \<lparr>EmployeeID = ID employee,
                    VestedUnits = vestedUnits,
                    UnvestedUnits = wrap64 (TotalUnits employee - vestedUnits),
                    NextVestDate = nextVestDate,
                    AsOfDate = asOfDate\<rparr>)"

section \<open>The cache\<close>

definition GetResult :: "VestingService \<Rightarrow> string \<Rightarrow> VestingResult option" where
  \<comment> \<open>\<open>Some result\<close> is \<open>(result, true)\<close>; \<open>None\<close> is \<open>(VestingResult{}, false)\<close>\<close>
  "GetResult vs employeeID = results (cache vs) employeeID"

definition ClearCache :: "VestingService \<Rightarrow> VestingService" where
  "ClearCache vs = vs\<lparr>cache := NewVestingCache\<rparr>"

fun GetBatchResults_loop ::
    "VestingService \<Rightarrow> string list \<Rightarrow> (string \<rightharpoonup> VestingResult)
     \<Rightarrow> error + (string \<rightharpoonup> VestingResult)" where
  "GetBatchResults_loop vs [] res = Inr res"
| "GetBatchResults_loop vs (eid # eids) res =
     (case GetResult vs eid of
        Some result \<Rightarrow> GetBatchResults_loop vs eids (res(eid \<mapsto> result))
      | None \<Rightarrow> Inl (ResultNotFound eid))"

definition GetBatchResults ::
    "VestingService \<Rightarrow> string list \<Rightarrow> error + (string \<rightharpoonup> VestingResult)" where
  "GetBatchResults vs employeeIDs = GetBatchResults_loop vs employeeIDs Map.empty"

subsection \<open>Accesses to the map and the mutex\<close>

text \<open>
  What a goroutine does to the mutex \<open>vs.mu\<close> and to the map \<open>vs.cache.results\<close>, in
  program order. \<open>guarded held as\<close> says that every access to the map in \<open>as\<close> is made
  while the goroutine holds the mutex, \<open>held\<close> telling whether it holds it at the start.
  \<open>ProcessBatch\<close> starts one goroutine for each employee, all running concurrently
  until \<open>wg.Wait()\<close>; \<open>worker_actions\<close> is what one of them does: after a failed
  calculation it sends the error on the channel and leaves the map alone, after a
  successful one it stores the result in the map.
\<close>

datatype action = Lock | Unlock | ReadMap string | WriteMap string | ReplaceCache

definition GetResult_actions :: "string \<Rightarrow> action list" where
  "GetResult_actions employeeID = [Lock, ReadMap employeeID, Unlock]"

definition ClearCache_actions :: "action list" where
  "ClearCache_actions = [Lock, ReplaceCache, Unlock]"

definition worker_actions :: "(float64 \<Rightarrow> int) \<Rightarrow> Time \<Rightarrow> Employee \<Rightarrow> action list" where
  "worker_actions oor asOfDate employee =
     (case calculateVesting oor employee asOfDate of
        Inl err \<Rightarrow> []
      | Inr result \<Rightarrow> [WriteMap (ID employee)])"

fun guarded :: "bool \<Rightarrow> action list \<Rightarrow> bool" where
  "guarded held [] = True"
| "guarded held (Lock # as) = guarded True as"
| "guarded held (Unlock # as) = guarded False as"
| "guarded held (a # as) = (held \<and> guarded held as)"

section \<open>The backloaded formula in the words of the specification\<close>

text \<open>
  The specification's formula, in exact arithmetic: the tranche percentages 10%, 20%,
  30%, 40%; their sum over the indices 0 to \<open>fullYears\<close>, at most 3; the partial year
  \<open>percentages[fullYears] * remainderMonths / 12\<close> when \<open>fullYears < 4\<close> and
  \<open>remainderMonths > 0\<close>; and the floor of the grant times the total. The employee is
  past the cliff, so \<open>elapsed\<close> is not negative and the integer division is \<open>div\<close>.
\<close>

definition spec_percentages :: "real list" where
  "spec_percentages = [10 / 100, 20 / 100, 30 / 100, 40 / 100]"

definition spec_totalPercent :: "int \<Rightarrow> int \<Rightarrow> real" where
  "spec_totalPercent fullYears remainderMonths =
     sum_list (take (nat (min fullYears 3 + 1)) spec_percentages)
     + (if fullYears < 4 \<and> remainderMonths > 0
        then spec_percentages ! nat fullYears * of_int remainderMonths / 12
        else 0)"

definition spec_vested :: "int \<Rightarrow> int \<Rightarrow> int \<Rightarrow> int" where
  "spec_vested totalUnits monthsEmployed cliffMonths =
     (let elapsed = monthsEmployed - cliffMonths;
          fullYears = elapsed div 12;
          remainderMonths = elapsed mod 12
      in \<lfloor>of_int totalUnits * spec_totalPercent fullYears remainderMonths\<rfloor>)"

text \<open>
  The total percentage that the backloaded branch of the code computes, as a function of
  \<open>yearsVested\<close> and \<open>monthsInCurrentYear\<close>, and the closeness of a float64 percentage
  \<open>f\<close> to an exact percentage \<open>p\<close> (a multiple of 1/120) under which the floor of the
  float64 product with a grant of at most \<open>10 ^ 13\<close> units is the floor of the exact
  product. Both serve the comparison of the code with the formula.
\<close>

definition code_totalPercent :: "int \<Rightarrow> int \<Rightarrow> float64" where
  "code_totalPercent yearsVested monthsInCurrentYear =
     (if yearsVested < int (length percentages) \<and> monthsInCurrentYear > 0
      then fadd (totalPercent_loop 0 yearsVested (Finite 0))
             (fmul (percentages ! nat yearsVested)
                   (fdiv (float64_of_int monthsInCurrentYear) (float64_const 12)))
      else totalPercent_loop 0 yearsVested (Finite 0))"

definition percent_close :: "float64 \<Rightarrow> real \<Rightarrow> bool" where
  "percent_close f p =
     (case f of
        Finite c \<Rightarrow>
          p \<le> c * (1 + 1 / 2 ^ 54)
          \<and> c * (1 + 1 / 2 ^ 52) \<le> p + 1 / (120 * 10 ^ 13)
          \<and> 1 / 16 \<le> c \<and> c \<le> 2
          \<and> of_int \<lfloor>120 * p\<rfloor> = 120 * p
      | _ \<Rightarrow> False)"

section \<open>Concrete inputs\<close>

text \<open>Employees of the repository's tests (vesting_service_test.go).\<close>

definition emp1 :: Employee where
  \<comment> \<open>TestLinearVestingCalculations, "Before cliff"\<close>
  "emp1 = \<lparr>ID = ''emp1'', Name = ''Pre-cliff Employee'', StartDate = Date 2023 1 1,
           TotalUnits = 48000,
           Schedule = \<lparr>CliffMonths = 12, VestingMonths = 48, VestingType = ''linear''\<rparr>\<rparr>"

definition emp3 :: Employee where
  \<comment> \<open>TestLinearVestingCalculations, "One year after cliff"\<close>
  "emp3 = \<lparr>ID = ''emp3'', Name = ''Mid-vesting Employee'', StartDate = Date 2021 1 1,
           TotalUnits = 48000,
           Schedule = \<lparr>CliffMonths = 12, VestingMonths = 48, VestingType = ''linear''\<rparr>\<rparr>"

definition back1 :: Employee where
  \<comment> \<open>TestBackloadedVestingCalculations, "End of year 1"\<close>
  "back1 = \<lparr>ID = ''back1'', Name = ''Year 1 Employee'', StartDate = Date 2021 1 1,
            TotalUnits = 40000,
            Schedule = \<lparr>CliffMonths = 12, VestingMonths = 48, VestingType = ''backloaded''\<rparr>\<rparr>"

definition back2 :: Employee where
  \<comment> \<open>TestBackloadedVestingCalculations, "Mid year 2"\<close>
  "back2 = \<lparr>ID = ''back2'', Name = ''Mid Year 2 Employee'', StartDate = Date 2021 1 1,
            TotalUnits = 40000,
            Schedule = \<lparr>CliffMonths = 12, VestingMonths = 48, VestingType = ''backloaded''\<rparr>\<rparr>"

definition back3 :: Employee where
  \<comment> \<open>TestBackloadedVestingCalculations, "End of year 3"\<close>
  "back3 = \<lparr>ID = ''back3'', Name = ''Year 3 Employee'', StartDate = Date 2020 1 1,
            TotalUnits = 40000,
            Schedule = \<lparr>CliffMonths = 12, VestingMonths = 48, VestingType = ''backloaded''\<rparr>\<rparr>"



text \<open>A backloaded grant of 4048658484850501 units with no cliff.\<close>

definition big30 :: Employee where
  "big30 = \<lparr>ID = ''big30'', Name = ''Large Grant Employee'', StartDate = Date 2021 1 1,
            TotalUnits = 4048658484850501,
            Schedule = \<lparr>CliffMonths = 0, VestingMonths = 48, VestingType = ''backloaded''\<rparr>\<rparr>"

text \<open>A linear grant of 7900 units over 60 months with no cliff.\<close>

definition lin60 :: Employee where
  "lin60 = \<lparr>ID = ''lin60'', Name = ''Five Year Employee'', StartDate = Date 2018 1 1,
            TotalUnits = 7900,
            Schedule = \<lparr>CliffMonths = 0, VestingMonths = 60, VestingType = ''linear''\<rparr>\<rparr>"

definition emp1_result :: VestingResult where
  "emp1_result = \<lparr>EmployeeID = ''emp1'', VestedUnits = 0, UnvestedUnits = 48000,
            NextVestDate = Date 2024 1 1, AsOfDate = Date 2023 11 1\<rparr>"

definition cached_service :: VestingService where
  "cached_service = \<lparr>cache = \<lparr>results = [''emp1'' \<mapsto> emp1_result]\<rparr>\<rparr>"

section \<open>Evaluation on concrete inputs\<close>

lemma bitlen_numeral_simps:
  "bitlen 1 = 1"
  "bitlen (numeral (Num.Bit0 n)) = bitlen (numeral n) + 1"
  "bitlen (numeral (Num.Bit1 n)) = bitlen (numeral n) + 1"
  by (subst compute_bitlen, simp)+

lemmas time_eval = Date_def Before_def monthIndex_def AddDate_months_def addMonths_def
  daysIn_def isLeap_def Let_def

lemmas float_eval = rnd_def pow2_def flog2_def round_half_even_def float64_const_def
  float64_of_int_def int_of_float64_def is_int64_def bitlen_numeral_simps

lemma percentages_val:
  "percentages = [Finite (3602879701896397 / 36028797018963968),
                  Finite (3602879701896397 / 18014398509481984),
                  Finite (5404319552844595 / 18014398509481984),
                  Finite (3602879701896397 / 9007199254740992)]"
  by (simp add: percentages_def float_eval)

section \<open>Counting months\<close>

text \<open>
  Adding months keeps a time normalised, so the loop of \<open>monthsBetween\<close> only ever
  compares normalised times.
\<close>

lemma daysIn_bounds: "28 \<le> daysIn m y" "daysIn m y \<le> 31"
  by (simp_all add: daysIn_def)

lemma valid_time_AddDate_months:
  assumes "valid_time t"
  shows "valid_time (AddDate_months t n)"
proof -
  let ?mi = "monthIndex t + n"
  have d: "1 \<le> Day t" "Day t \<le> 31" and ns: "0 \<le> Nsec t" "Nsec t < 86400000000000"
    using assms daysIn_bounds(2) [of "Month t" "Year t"] by (auto simp: valid_time_def)
  have m: "1 \<le> k mod 12 + 1" "k mod 12 + 1 \<le> 12" for k :: int
    by simp_all
  show ?thesis
  proof (cases "Day t > daysIn (?mi mod 12 + 1) (?mi div 12)")
    case True
    have "Day t - daysIn (?mi mod 12 + 1) (?mi div 12) \<le> 3"
      using d daysIn_bounds(1) [of "?mi mod 12 + 1" "?mi div 12"] by linarith
    also have "\<dots> \<le> daysIn ((?mi + 1) mod 12 + 1) ((?mi + 1) div 12)"
      using daysIn_bounds(1) [of "(?mi + 1) mod 12 + 1" "(?mi + 1) div 12"] by linarith
    finally show ?thesis
      using True ns m by (simp add: AddDate_months_def valid_time_def Let_def)
  next
    case False
    then show ?thesis
      using d ns m by (simp add: AddDate_months_def valid_time_def Let_def)
  qed
qed

lemma AddDate_months_october_31:
  "AddDate_months (Date 2023 10 31) 1 = Date 2023 12 1"
  by (simp add: time_eval)

lemma Before_trans_le: "Before s e1 \<Longrightarrow> \<not> Before e2 e1 \<Longrightarrow> Before s e2"
  by (auto simp: Before_def)

lemma monthsBetween_loop_ge: "months \<le> monthsBetween_loop start endt months month year"
proof (induction start endt months month year rule: monthsBetween_loop.induct)
  case (1 start endt months month year)
  show ?case
  proof (cases "Before start endt")
    case True
    with 1 show ?thesis
      by (subst monthsBetween_loop.simps) (simp add: Let_def, force)
  next
    case False
    then show ?thesis by (subst monthsBetween_loop.simps) simp
  qed
qed

lemma monthsBetween_loop_mono:
  "\<not> Before end2 end1 \<Longrightarrow>
   monthsBetween_loop start end1 months month year
     \<le> monthsBetween_loop start end2 months month year"
proof (induction start end1 months month year rule: monthsBetween_loop.induct)
  case (1 start endt months month year)
  let ?s = "AddDate_months start 1"
  let ?m = "if Month ?s \<noteq> month then Month ?s else month"
  let ?y = "if Year ?s \<noteq> year then Year ?s else year"
  show ?case
  proof (cases "Before start endt")
    case True
    then have b2: "Before start end2" using 1(2) by (rule Before_trans_le)
    have "monthsBetween_loop ?s endt (months + 1) ?m ?y
          \<le> monthsBetween_loop ?s end2 (months + 1) ?m ?y"
      using 1(1) [OF True refl refl refl refl 1(2)] .
    moreover have "monthsBetween_loop start endt months month year =
        monthsBetween_loop ?s endt (months + 1) ?m ?y"
      using True by (subst monthsBetween_loop.simps) (simp add: Let_def)
    moreover have "monthsBetween_loop start end2 months month year =
        monthsBetween_loop ?s end2 (months + 1) ?m ?y"
      using b2 by (subst monthsBetween_loop.simps) (simp add: Let_def)
    ultimately show ?thesis by simp
  next
    case False
    then have "monthsBetween_loop start endt months month year = months"
      by (subst monthsBetween_loop.simps) simp
    then show ?thesis by (simp add: monthsBetween_loop_ge)
  qed
qed

text \<open>
  C9: \<open>monthsBetween d d\<close> is 0, \<open>monthsBetween start end\<close> is 0 whenever \<open>start\<close> is not
  before \<open>end\<close>, and for a fixed start the count does not decrease as the end advances
  (\<open>end1\<close> not after \<open>end2\<close>).
\<close>

theorem monthsBetween_zero_and_monotone:
  "monthsBetween d d = 0
   \<and> (\<not> Before start endt \<longrightarrow> monthsBetween start endt = 0)
   \<and> (\<not> Before end2 end1 \<longrightarrow> monthsBetween start end1 \<le> monthsBetween start end2)"
proof (intro conjI impI)
  have "\<not> Before d d" by (simp add: Before_def)
  then show "monthsBetween d d = 0"
    unfolding monthsBetween_def by (subst monthsBetween_loop.simps) simp
next
  assume "\<not> Before start endt"
  then show "monthsBetween start endt = 0"
    unfolding monthsBetween_def by (subst monthsBetween_loop.simps) simp
next
  assume "\<not> Before end2 end1"
  then show "monthsBetween start end1 \<le> monthsBetween start end2"
    unfolding monthsBetween_def by (rule monthsBetween_loop_mono)
qed

theorem monthsBetween_zero_and_monotone_witness:
  "monthsBetween (Date 2023 1 15) (Date 2023 1 15) = 0
   \<and> \<not> Before (Date 2023 1 15) (Date 2022 1 1)
   \<and> monthsBetween (Date 2023 1 15) (Date 2022 1 1) = 0
   \<and> \<not> Before (Date 2023 3 1) (Date 2023 2 10)
   \<and> monthsBetween (Date 2023 1 15) (Date 2023 2 10)
       \<le> monthsBetween (Date 2023 1 15) (Date 2023 3 1)"
  using monthsBetween_zero_and_monotone
    [where d = "Date 2023 1 15" and start = "Date 2023 1 15" and endt = "Date 2022 1 1"
       and ?end2.0 = "Date 2023 3 1" and ?end1.0 = "Date 2023 2 10"]
  by (simp add: Before_def monthIndex_def Date_def)

section \<open>The cliff rule\<close>

lemma calculateVesting_before_cliff:
  assumes "0 < TotalUnits employee"
    and "monthsBetween (StartDate employee) asOfDate < CliffMonths (Schedule employee)"
  shows "calculateVesting oor employee asOfDate =
     Inr \<lparr>EmployeeID = ID employee, VestedUnits = 0, UnvestedUnits = TotalUnits employee,
          NextVestDate = addMonths (StartDate employee) (CliffMonths (Schedule employee)),
          AsOfDate = asOfDate\<rparr>"
  using assms by (simp add: calculateVesting_def)

lemma emp1_fields:
  "TotalUnits emp1 = 48000" "StartDate emp1 = Date 2023 1 1"
  "CliffMonths (Schedule emp1) = 12" "ID emp1 = ''emp1''"
  by (simp_all add: emp1_def)

lemma monthsBetween_emp1: "monthsBetween (Date 2023 1 1) (Date 2023 11 1) = 10"
  by (simp add: monthsBetween_def monthsBetween_loop.simps time_eval)

lemma calculateVesting_emp1:
  "calculateVesting oor emp1 (Date 2023 11 1) = Inr emp1_result"
proof -
  have "addMonths (Date 2023 1 1) 12 = Date 2024 1 1"
    by (simp add: time_eval)
  then show ?thesis
    by (simp add: calculateVesting_before_cliff emp1_fields monthsBetween_emp1 emp1_result_def)
qed

text \<open>
  C6: when the grant is positive and fewer months than the cliff have been counted, the
  outcome has no vested units, all units unvested, and the start date plus the cliff
  months as next vest date, whatever the policy and the as-of date.
\<close>

theorem cliff_rule:
  assumes "0 < TotalUnits employee"
    and "monthsBetween (StartDate employee) asOfDate < CliffMonths (Schedule employee)"
  shows "calculateVesting oor employee asOfDate =
     Inr \<lparr>EmployeeID = ID employee, VestedUnits = 0, UnvestedUnits = TotalUnits employee,
          NextVestDate = addMonths (StartDate employee) (CliffMonths (Schedule employee)),
          AsOfDate = asOfDate\<rparr>"
  using assms by (rule calculateVesting_before_cliff)

theorem cliff_rule_witness:
  "0 < TotalUnits emp1
   \<and> monthsBetween (StartDate emp1) (Date 2023 11 1) < CliffMonths (Schedule emp1)
   \<and> calculateVesting oor_amd64 emp1 (Date 2023 11 1) =
       Inr \<lparr>EmployeeID = ''emp1'', VestedUnits = 0, UnvestedUnits = 48000,
            NextVestDate = Date 2024 1 1, AsOfDate = Date 2023 11 1\<rparr>"
proof -
  have n: "addMonths (Date 2023 1 1) 12 = Date 2024 1 1"
    by (simp add: time_eval)
  have h1: "0 < TotalUnits emp1" by (simp add: emp1_fields)
  have h2: "monthsBetween (StartDate emp1) (Date 2023 11 1) < CliffMonths (Schedule emp1)"
    by (simp add: emp1_fields monthsBetween_emp1)
  show ?thesis
    using cliff_rule [OF h1 h2, of oor_amd64] h1 h2 by (simp add: emp1_fields n)
qed

section \<open>Reading several results\<close>

lemma GetBatchResults_loop_missing:
  "find (\<lambda>k. GetResult vs k = None) eids = Some missing \<Longrightarrow>
   GetBatchResults_loop vs eids res = Inl (ResultNotFound missing)"
  by (induction eids arbitrary: res) (auto split: option.splits if_splits)

lemma GetBatchResults_loop_present:
  "find (\<lambda>k. GetResult vs k = None) eids = None \<Longrightarrow>
   \<exists>m. GetBatchResults_loop vs eids res = Inr m \<and> dom m = dom res \<union> set eids
       \<and> (\<forall>k\<in>set eids. m k = GetResult vs k) \<and> (\<forall>k. k \<notin> set eids \<longrightarrow> m k = res k)"
proof (induction eids arbitrary: res)
  case Nil
  then show ?case by simp
next
  case (Cons eid eids)
  from Cons.prems obtain r where r: "GetResult vs eid = Some r"
    and rest: "find (\<lambda>k. GetResult vs k = None) eids = None"
    by (auto split: if_splits)
  from Cons.IH [OF rest, of "res(eid \<mapsto> r)"] obtain m where
    m: "GetBatchResults_loop vs eids (res(eid \<mapsto> r)) = Inr m"
       "dom m = dom (res(eid \<mapsto> r)) \<union> set eids"
       "\<forall>k\<in>set eids. m k = GetResult vs k"
       "\<forall>k. k \<notin> set eids \<longrightarrow> m k = (res(eid \<mapsto> r)) k"
    by blast
  have "m eid = GetResult vs eid"
    using m(3,4) r by (cases "eid \<in> set eids") auto
  with m r show ?case by auto
qed

text \<open>
  C8: \<open>GetBatchResults\<close> fails with the not-found error naming the first requested
  identifier, in request order, that has no cached result, if there is one; otherwise it
  returns a map whose keys are exactly the requested identifiers, each with its cached
  result.
\<close>

theorem GetBatchResults_first_missing_or_all:
  "(case find (\<lambda>k. GetResult vs k = None) employeeIDs of
      Some missing \<Rightarrow> GetBatchResults vs employeeIDs = Inl (ResultNotFound missing)
    | None \<Rightarrow> (\<exists>m. GetBatchResults vs employeeIDs = Inr m \<and> dom m = set employeeIDs
                 \<and> (\<forall>k\<in>set employeeIDs. m k = GetResult vs k)))"
proof (cases "find (\<lambda>k. GetResult vs k = None) employeeIDs")
  case None
  from GetBatchResults_loop_present [OF None, of Map.empty]
  show ?thesis by (auto simp: None GetBatchResults_def)
next
  case (Some missing)
  then show ?thesis
    by (simp add: GetBatchResults_def GetBatchResults_loop_missing)
qed

theorem GetBatchResults_first_missing_or_all_witness:
  "GetBatchResults cached_service [''emp1'', ''missing_employee'', ''other'']
     = Inl (ResultNotFound ''missing_employee'')
   \<and> (\<exists>m. GetBatchResults cached_service [''emp1'', ''emp1''] = Inr m
         \<and> dom m = {''emp1''} \<and> m ''emp1'' = Some emp1_result)"
  using GetBatchResults_first_missing_or_all
          [of cached_service "[''emp1'', ''missing_employee'', ''other'']"]
        GetBatchResults_first_missing_or_all [of cached_service "[''emp1'', ''emp1'']"]
  by (simp add: GetResult_def cached_service_def)

section \<open>Conversion of positive integers to float64\<close>

lemma pow2_powr: "pow2 e = 2 powr (real_of_int e)"
proof (cases "0 \<le> e")
  case True
  then show ?thesis
    by (simp add: pow2_def powr_realpow [symmetric])
next
  case False
  then have "2 powr (real_of_int e) = 1 / 2 powr (real (nat (- e)))"
    by (simp add: powr_minus_divide [symmetric])
  with False show ?thesis
    by (simp add: pow2_def powr_realpow [symmetric])
qed

lemma pow2_pos: "0 < pow2 e"
  by (simp add: pow2_powr)

lemma pow2_mono: "e \<le> e' \<Longrightarrow> pow2 e \<le> pow2 e'"
  by (simp add: pow2_powr)

lemma flog2_ge1: assumes "1 \<le> a" shows "0 \<le> flog2 a" and "pow2 (flog2 a) \<le> a"
proof -
  from assms have f: "0 < \<lfloor>a\<rfloor>" by simp
  from bitlen_bounds [OF f] have b: "2 ^ nat (bitlen \<lfloor>a\<rfloor> - 1) \<le> \<lfloor>a\<rfloor>" by simp
  have b1: "1 \<le> bitlen \<lfloor>a\<rfloor>"
    using f bitlen_eq_zero_iff [of "\<lfloor>a\<rfloor>"] bitlen_nonneg [of "\<lfloor>a\<rfloor>"] by linarith
  then show "0 \<le> flog2 a" using assms by (simp add: flog2_def)
  have "pow2 (flog2 a) = 2 ^ nat (bitlen \<lfloor>a\<rfloor> - 1)"
    using assms b1 by (simp add: flog2_def pow2_def)
  also have "\<dots> = of_int (2 ^ nat (bitlen \<lfloor>a\<rfloor> - 1))" by simp
  also have "\<dots> \<le> of_int \<lfloor>a\<rfloor>" using b by (simp only: of_int_le_iff)
  also have "\<dots> \<le> a" by simp
  finally show "pow2 (flog2 a) \<le> a" .
qed

lemma round_half_even_bounds:
  "\<lfloor>y\<rfloor> \<le> round_half_even y" "round_half_even y \<le> \<lfloor>y\<rfloor> + 1"
  by (simp_all add: round_half_even_def Let_def)

lemma rnd_ge1:
  assumes "1 \<le> x" and "x \<le> 2 ^ 64"
  shows "\<exists>b. rnd x = Finite b \<and> 0 < b"
proof -
  define e where "e = max (flog2 x - 52) (- 1074)"
  define r where "r = round_half_even (x / pow2 e)"
  have e: "e \<le> flog2 x" using flog2_ge1(1) [OF assms(1)] by (simp add: e_def)
  have p: "0 < pow2 e" by (rule pow2_pos)
  have px: "pow2 e \<le> x"
    using pow2_mono [OF e] flog2_ge1(2) [OF assms(1)] by linarith
  then have y1: "1 \<le> x / pow2 e" using p by (simp add: field_simps)
  then have "1 \<le> \<lfloor>x / pow2 e\<rfloor>" by simp
  then have r1: "1 \<le> r"
    using round_half_even_bounds(1) [of "x / pow2 e"] unfolding r_def by linarith
  have "real_of_int r \<le> real_of_int \<lfloor>x / pow2 e\<rfloor> + 1"
    using round_half_even_bounds(2) [of "x / pow2 e"] unfolding r_def
    by (metis of_int_1 of_int_add of_int_le_iff)
  then have "real_of_int r \<le> x / pow2 e + 1" by linarith
  then have "real_of_int r * pow2 e \<le> (x / pow2 e + 1) * pow2 e"
    using p by (simp only: mult_le_cancel_right_pos)
  also have "\<dots> = x + pow2 e" using p by (simp add: field_simps)
  also have "\<dots> \<le> 2 * 2 ^ 64" using px assms(2) by linarith
  also have "\<dots> < (2::real) ^ 1024" by simp
  finally have small: "real_of_int r * pow2 e < 2 ^ 1024" .
  have pos: "0 < real_of_int r * pow2 e" using r1 p by simp
  have "rnd x = Finite (real_of_int r * pow2 e)"
    using assms(1) small
    by (simp add: rnd_def Let_def e_def [symmetric] r_def [symmetric])
  with pos show ?thesis by blast
qed

lemma float64_of_int_pos:
  assumes "0 < n" and "is_int64 n"
  shows "\<exists>b. float64_of_int n = Finite b \<and> 0 < b"
proof -
  have "1 \<le> real_of_int n" using assms(1) by simp
  moreover have "real_of_int n \<le> 2 ^ 64"
  proof -
    have "n \<le> 2 ^ 64" using assms(2) by (simp add: is_int64_def)
    then have "real_of_int n \<le> real_of_int (2 ^ 64)" by (simp only: of_int_le_iff)
    then show ?thesis by simp
  qed
  ultimately show ?thesis unfolding float64_of_int_def by (rule rnd_ge1)
qed

text \<open>
  C10: for a schedule that \<open>ValidateSchedule\<close> accepts and a positive grant (the fields
  being 64-bit values), the divisor \<open>vestingMonthsAfterCliff\<close> of the linear computation
  is the difference of the two month counts and is positive; its conversion to float64
  is a positive finite number, so the quotient \<open>unitsPerMonth\<close> is the rounded real
  quotient and not the result of a division by zero.
\<close>

theorem validated_divisor_positive:
  assumes "ValidateSchedule (Schedule employee) = None"
    and "is_int64 (CliffMonths (Schedule employee))"
    and "is_int64 (VestingMonths (Schedule employee))"
    and "0 < TotalUnits employee" and "is_int64 (TotalUnits employee)"
  shows "0 < vestingMonthsAfterCliff (Schedule employee)
    \<and> vestingMonthsAfterCliff (Schedule employee)
        = VestingMonths (Schedule employee) - CliffMonths (Schedule employee)
    \<and> (\<exists>a b. float64_of_int (TotalUnits employee) = Finite a
          \<and> float64_of_int (vestingMonthsAfterCliff (Schedule employee)) = Finite b
          \<and> 0 < b
          \<and> fdiv (float64_of_int (TotalUnits employee))
                  (float64_of_int (vestingMonthsAfterCliff (Schedule employee)))
              = rnd (a / b))"
proof -
  let ?s = "Schedule employee"
  from assms(1) have c: "0 \<le> CliffMonths ?s" and v: "CliffMonths ?s < VestingMonths ?s"
    by (auto simp: ValidateSchedule_def split: if_splits)
  have eq: "vestingMonthsAfterCliff ?s = VestingMonths ?s - CliffMonths ?s"
    using c v assms(2,3) by (simp add: vestingMonthsAfterCliff_def wrap64_def is_int64_def)
  have pos: "0 < vestingMonthsAfterCliff ?s" using eq v by simp
  have r: "is_int64 (vestingMonthsAfterCliff ?s)"
    using eq c v assms(3) by (simp add: is_int64_def)
  from float64_of_int_pos [OF assms(4,5)] obtain a where
    a: "float64_of_int (TotalUnits employee) = Finite a" by blast
  from float64_of_int_pos [OF pos r] obtain b where
    b: "float64_of_int (vestingMonthsAfterCliff ?s) = Finite b" "0 < b" by blast
  show ?thesis using pos eq a b by simp
qed

theorem validated_divisor_positive_witness:
  "ValidateSchedule (Schedule emp3) = None
   \<and> is_int64 (CliffMonths (Schedule emp3))
   \<and> is_int64 (VestingMonths (Schedule emp3))
   \<and> 0 < TotalUnits emp3 \<and> is_int64 (TotalUnits emp3)
   \<and> vestingMonthsAfterCliff (Schedule emp3) = 36
   \<and> 0 < vestingMonthsAfterCliff (Schedule emp3)
   \<and> (\<exists>a b. float64_of_int (TotalUnits emp3) = Finite a
          \<and> float64_of_int (vestingMonthsAfterCliff (Schedule emp3)) = Finite b
          \<and> 0 < b
          \<and> fdiv (float64_of_int (TotalUnits emp3))
                  (float64_of_int (vestingMonthsAfterCliff (Schedule emp3)))
              = rnd (a / b))"
proof -
  have h1: "ValidateSchedule (Schedule emp3) = None"
    by (simp add: ValidateSchedule_def emp3_def)
  have h2: "is_int64 (CliffMonths (Schedule emp3))"
    and h3: "is_int64 (VestingMonths (Schedule emp3))"
    and h4: "0 < TotalUnits emp3" and h5: "is_int64 (TotalUnits emp3)"
    by (simp_all add: is_int64_def emp3_def)
  have d: "VestingMonths (Schedule emp3) - CliffMonths (Schedule emp3) = 36"
    by (simp add: emp3_def)
  from validated_divisor_positive [OF h1 h2 h3 h4 h5]
  have c: "0 < vestingMonthsAfterCliff (Schedule emp3)"
    "vestingMonthsAfterCliff (Schedule emp3)
       = VestingMonths (Schedule emp3) - CliffMonths (Schedule emp3)"
    "\<exists>a b. float64_of_int (TotalUnits emp3) = Finite a
          \<and> float64_of_int (vestingMonthsAfterCliff (Schedule emp3)) = Finite b
          \<and> 0 < b
          \<and> fdiv (float64_of_int (TotalUnits emp3))
                  (float64_of_int (vestingMonthsAfterCliff (Schedule emp3)))
              = rnd (a / b)"
    by blast+
  from c(2) d have "vestingMonthsAfterCliff (Schedule emp3) = 36" by (rule trans)
  with c(1,3) h1 h2 h3 h4 h5 show ?thesis by blast
qed

section \<open>The backloaded formula\<close>

lemma totalPercent_loop_closed:
  "totalPercent_loop 0 yearsVested (Finite 0) =
     foldl fadd (Finite 0) (take (nat (min yearsVested 3 + 1)) percentages)"
proof -
  consider "yearsVested < 0" | "yearsVested = 0" | "yearsVested = 1" | "yearsVested = 2"
    | "3 \<le> yearsVested" by linarith
  then show ?thesis
  proof cases
    case 1
    then show ?thesis by (simp add: totalPercent_loop.simps [of 0])
  next
    case 2
    then show ?thesis
      by (simp add: totalPercent_loop.simps [of 0] totalPercent_loop.simps [of 1]
            percentages_def)
  next
    case 3
    then show ?thesis
      by (simp add: totalPercent_loop.simps [of 0] totalPercent_loop.simps [of 1]
            totalPercent_loop.simps [of 2] percentages_def)
  next
    case 4
    then show ?thesis
      by (simp add: totalPercent_loop.simps [of 0] totalPercent_loop.simps [of 1]
            totalPercent_loop.simps [of 2] totalPercent_loop.simps [of 3] percentages_def)
  next
    case 5
    then have m: "min yearsVested 3 = 3" by simp
    from 5 show ?thesis
      by (simp add: totalPercent_loop.simps [of 0] totalPercent_loop.simps [of 1]
            totalPercent_loop.simps [of 2] totalPercent_loop.simps [of 3]
            totalPercent_loop.simps [of 4] percentages_def m)
  qed
qed

text \<open>
  The read \<open>percentages[yearsVested]\<close> is in range where it is made: the quotient is
  below 4 by the guard and it is not negative when the remainder is positive.
\<close>

lemma percentages_index_in_range: "0 < a smod 12 \<Longrightarrow> 0 \<le> a sdiv (12::int)"
  by (cases "0 \<le> a") (auto simp: signed_divide_int_def signed_modulo_int_def sgn_if
        zdiv_mono1 pos_imp_zdiv_nonneg_iff split: if_splits)

lemma monthsBetween_30: "monthsBetween (Date 2021 1 1) (Date 2023 7 1) = 30"
  by (simp add: monthsBetween_def monthsBetween_loop.simps time_eval)

subsection \<open>Rounding to float64 and the floor\<close>

lemma pow2_add: "pow2 (a + b) = pow2 a * pow2 b"
  by (simp add: pow2_powr powr_add)

lemma pow2_numeral: "pow2 52 = 2 ^ 52" "pow2 53 = 2 ^ 53" "pow2 (- 4) = 1 / 16"
  by (simp_all add: pow2_def)

lemma pow2_less_imp: "pow2 a < pow2 b \<Longrightarrow> a < b"
  by (simp add: pow2_powr)

lemma flog2_bounds:
  assumes "0 < a"
  shows "pow2 (flog2 a) \<le> a" and "a < pow2 (flog2 a + 1)"
proof -
  have "pow2 (flog2 a) \<le> a \<and> a < pow2 (flog2 a + 1)"
  proof (cases "1 \<le> a")
    case True
    then have f: "0 < \<lfloor>a\<rfloor>" by simp
    have b1: "1 \<le> bitlen \<lfloor>a\<rfloor>"
      using f bitlen_eq_zero_iff [of "\<lfloor>a\<rfloor>"] bitlen_nonneg [of "\<lfloor>a\<rfloor>"] by linarith
    have fl: "flog2 a = bitlen \<lfloor>a\<rfloor> - 1" using True by (simp add: flog2_def)
    from bitlen_bounds [OF f] have "\<lfloor>a\<rfloor> < 2 ^ nat (bitlen \<lfloor>a\<rfloor>)" by simp
    then have "\<lfloor>a\<rfloor> + 1 \<le> 2 ^ nat (bitlen \<lfloor>a\<rfloor>)" by simp
    then have "real_of_int (\<lfloor>a\<rfloor> + 1) \<le> real_of_int (2 ^ nat (bitlen \<lfloor>a\<rfloor>))"
      by (simp only: of_int_le_iff)
    then have "real_of_int \<lfloor>a\<rfloor> + 1 \<le> 2 ^ nat (bitlen \<lfloor>a\<rfloor>)" by simp
    moreover have "a < real_of_int \<lfloor>a\<rfloor> + 1" by simp
    ultimately have "a < 2 ^ nat (bitlen \<lfloor>a\<rfloor>)" by linarith
    moreover have "pow2 (flog2 a + 1) = 2 ^ nat (bitlen \<lfloor>a\<rfloor>)"
      using b1 by (simp add: fl pow2_def)
    ultimately show ?thesis using flog2_ge1(2) [OF True] by simp
  next
    case False
    define k where "k = \<lceil>1 / a\<rceil>"
    define b where "b = bitlen (k - 1)"
    from False assms have inv: "1 < 1 / a" by simp
    then have k2: "2 \<le> k" unfolding k_def by linarith
    then have k1: "0 < k - 1" by simp
    have b1: "1 \<le> b"
      using k1 bitlen_eq_zero_iff [of "k - 1"] bitlen_nonneg [of "k - 1"]
      unfolding b_def by linarith
    have fl: "flog2 a = - b" using False by (simp add: flog2_def k_def b_def)
    from bitlen_bounds [OF k1] have lo: "2 ^ nat (b - 1) \<le> k - 1" and hi: "k - 1 < 2 ^ nat b"
      unfolding b_def by simp_all
    have ka: "1 / a \<le> real_of_int k" and ka': "real_of_int k - 1 < 1 / a"
      unfolding k_def by linarith+
    from hi have "k \<le> 2 ^ nat b" by simp
    then have "real_of_int k \<le> real_of_int (2 ^ nat b)" by (simp only: of_int_le_iff)
    moreover have "real_of_int (2 ^ nat b) = 2 ^ nat b" by simp
    ultimately have "1 / a \<le> 2 ^ nat b" using ka by linarith
    then have "1 \<le> 2 ^ nat b * a" using assms by (simp add: field_simps)
    then have p1: "1 / 2 ^ nat b \<le> a" by (simp add: field_simps)
    from lo have "real_of_int (2 ^ nat (b - 1)) \<le> real_of_int (k - 1)"
      by (simp only: of_int_le_iff)
    moreover have "real_of_int (2 ^ nat (b - 1)) = 2 ^ nat (b - 1)" by simp
    moreover have "real_of_int (k - 1) = real_of_int k - 1" by simp
    ultimately have "2 ^ nat (b - 1) < 1 / a" using ka' by linarith
    then have "2 ^ nat (b - 1) * a < 1" using assms by (simp add: field_simps)
    then have p2: "a < 1 / 2 ^ nat (b - 1)" by (simp add: field_simps)
    have e1: "pow2 (flog2 a) = 1 / 2 ^ nat b" using b1 by (simp add: fl pow2_def)
    have e2: "pow2 (flog2 a + 1) = 1 / 2 ^ nat (b - 1)"
    proof (cases "b = 1")
      case True
      then show ?thesis by (simp add: fl pow2_def)
    next
      case False
      with b1 have "1 < b" by simp
      then have "nat (b - 1) = nat (- (- b + 1))" "\<not> 0 \<le> - b + 1" by simp_all
      then show ?thesis by (simp add: fl pow2_def)
    qed
    show ?thesis using p1 p2 e1 e2 by simp
  qed
  then show "pow2 (flog2 a) \<le> a" and "a < pow2 (flog2 a + 1)" by simp_all
qed

lemma round_half_even_le_ceiling: "round_half_even y \<le> \<lceil>y\<rceil>"
proof (cases "y = of_int \<lfloor>y\<rfloor>")
  case True
  then have "round_half_even y = \<lfloor>y\<rfloor>" by (simp add: round_half_even_def Let_def)
  then show ?thesis by (simp add: floor_le_ceiling)
next
  case False
  then have "\<lceil>y\<rceil> = \<lfloor>y\<rfloor> + 1" by (metis ceiling_altdef)
  then show ?thesis using round_half_even_bounds(2) [of y] by simp
qed

lemma round_half_even_ge:
  assumes "of_int M < y + 1 / 2"
  shows "M \<le> round_half_even y"
proof (cases "M \<le> \<lfloor>y\<rfloor>")
  case True
  then show ?thesis using round_half_even_bounds(1) [of y] by linarith
next
  case False
  then have m: "\<lfloor>y\<rfloor> + 1 \<le> M" by simp
  then have "real_of_int \<lfloor>y\<rfloor> + 1 \<le> real_of_int M"
    by (metis of_int_1 of_int_add of_int_le_iff)
  with assms have d: "1 / 2 < y - real_of_int \<lfloor>y\<rfloor>" by linarith
  then have r: "round_half_even y = \<lfloor>y\<rfloor> + 1"
    by (simp add: round_half_even_def Let_def)
  have "real_of_int M < real_of_int \<lfloor>y\<rfloor> + 2" using assms by linarith
  then have "M < \<lfloor>y\<rfloor> + 2" by linarith
  with r show ?thesis by simp
qed

lemma round_half_even_lt:
  assumes "y + 1 \<le> of_int M"
  shows "round_half_even y < M"
proof -
  have "real_of_int \<lceil>y\<rceil> < y + 1" by linarith
  with assms have "real_of_int \<lceil>y\<rceil> < real_of_int M" by linarith
  then have "\<lceil>y\<rceil> < M" by (simp only: of_int_less_iff)
  with round_half_even_le_ceiling [of y] show ?thesis by linarith
qed

lemma round_half_even_of_int: "round_half_even (of_int M) = M"
  by (simp add: round_half_even_def Let_def)

lemma int_on_grid:
  assumes "e \<le> 0"
  shows "\<exists>M::int. real_of_int m = real_of_int M * pow2 e"
proof (cases "e = 0")
  case True
  then show ?thesis by (auto simp: pow2_def)
next
  case False
  with assms have "\<not> 0 \<le> e" by simp
  then have "pow2 e = 1 / 2 ^ nat (- e)" by (simp add: pow2_def)
  then have "real_of_int m = real_of_int (m * 2 ^ nat (- e)) * pow2 e" by simp
  then show ?thesis by blast
qed

lemma rnd_grid:
  assumes "1 / 16 \<le> x" and "x < 2 ^ 53"
  obtains e where "e \<le> 0" and "0 < pow2 e" and "pow2 e * 2 ^ 52 \<le> x"
    and "x < pow2 e * 2 ^ 53"
    and "rnd x = Finite (of_int (round_half_even (x / pow2 e)) * pow2 e)"
proof -
  from assms(1) have x0: "0 < x" by simp
  define e where "e = flog2 x - 52"
  have "pow2 (- 4) < pow2 (flog2 x + 1)"
    using flog2_bounds(2) [OF x0] assms(1) by (simp add: pow2_numeral)
  then have lo: "- 4 < flog2 x + 1" by (rule pow2_less_imp)
  have "pow2 (flog2 x) < pow2 53"
    using flog2_bounds(1) [OF x0] assms(2) by (simp add: pow2_numeral)
  then have hi: "flog2 x < 53" by (rule pow2_less_imp)
  have emax: "max (flog2 x - 52) (- 1074) = e" using lo by (simp add: e_def)
  have e0: "e \<le> 0" using hi by (simp add: e_def)
  have p: "0 < pow2 e" by (rule pow2_pos)
  have "pow2 e * 2 ^ 52 = pow2 (e + 52)" by (simp add: pow2_add pow2_numeral)
  then have g1: "pow2 e * 2 ^ 52 \<le> x" using flog2_bounds(1) [OF x0] by (simp add: e_def)
  have "pow2 e * 2 ^ 53 = pow2 (e + 53)" by (simp add: pow2_add pow2_numeral)
  moreover have "e + 53 = flog2 x + 1" by (simp add: e_def)
  ultimately have g2: "x < pow2 e * 2 ^ 53" using flog2_bounds(2) [OF x0] by simp
  define r where "r = round_half_even (x / pow2 e)"
  have "real_of_int r \<le> real_of_int \<lfloor>x / pow2 e\<rfloor> + 1"
    using round_half_even_bounds(2) [of "x / pow2 e"] unfolding r_def
    by (metis of_int_1 of_int_add of_int_le_iff)
  then have "real_of_int r \<le> x / pow2 e + 1" by linarith
  then have "real_of_int r * pow2 e \<le> (x / pow2 e + 1) * pow2 e"
    using p by (simp only: mult_le_cancel_right_pos)
  also have "\<dots> = x + pow2 e" using p by (simp add: field_simps)
  also have "\<dots> \<le> 2 * x" using g1 p by (simp add: field_simps)
  also have "\<dots> < 2 * 2 ^ 53" using assms(2) by simp
  also have "\<dots> < (2::real) ^ 1024" by simp
  finally have small: "real_of_int r * pow2 e < 2 ^ 1024" .
  have "rnd x = Finite (real_of_int r * pow2 e)"
    using x0 small by (simp add: rnd_def Let_def emax r_def [symmetric])
  then show thesis using that [OF e0 p g1 g2] by (simp add: r_def)
qed

lemma rnd_floor:
  assumes "1 / 16 \<le> x" and "x < 2 ^ 53"
    and lo: "real_of_int n \<le> x * (1 + 1 / 2 ^ 54)"
    and hi: "x * (1 + 1 / 2 ^ 52) \<le> real_of_int n + 1"
  shows "\<exists>v. rnd x = Finite v \<and> \<lfloor>v\<rfloor> = n"
proof -
  from rnd_grid [OF assms(1,2)] obtain e where e0: "e \<le> 0" and p: "0 < pow2 e"
    and g1: "pow2 e * 2 ^ 52 \<le> x" and g2: "x < pow2 e * 2 ^ 53"
    and r: "rnd x = Finite (of_int (round_half_even (x / pow2 e)) * pow2 e)"
    by blast
  define y where "y = x / pow2 e"
  have xy: "x = y * pow2 e" using p by (simp add: y_def)
  have y1: "2 ^ 52 \<le> y" using g1 p by (simp add: y_def field_simps)
  have y2: "y < 2 ^ 53" using g2 p by (simp add: y_def field_simps)
  from int_on_grid [OF e0, of n] obtain M where M: "real_of_int n = real_of_int M * pow2 e"
    by blast
  from int_on_grid [OF e0, of "n + 1"] obtain M' where
    M': "real_of_int (n + 1) = real_of_int M' * pow2 e" by blast
  have "real_of_int M * pow2 e \<le> (y * (1 + 1 / 2 ^ 54)) * pow2 e"
    using lo by (simp add: M xy mult.assoc mult.commute mult.left_commute)
  then have "real_of_int M \<le> y * (1 + 1 / 2 ^ 54)"
    using p by (simp only: mult_le_cancel_right_pos)
  also have "\<dots> = y + y / 2 ^ 54" by (simp add: field_simps)
  also have "\<dots> < y + 1 / 2" using y2 by simp
  finally have "M \<le> round_half_even y" by (rule round_half_even_ge)
  then have "real_of_int M \<le> real_of_int (round_half_even y)" by (simp only: of_int_le_iff)
  then have a: "real_of_int n \<le> real_of_int (round_half_even y) * pow2 e"
    unfolding M using p by (simp only: mult_le_cancel_right_pos)
  have "(y * (1 + 1 / 2 ^ 52)) * pow2 e \<le> real_of_int M' * pow2 e"
    using hi M' by (simp add: xy mult.assoc mult.commute mult.left_commute)
  then have "y * (1 + 1 / 2 ^ 52) \<le> real_of_int M'"
    using p by (simp only: mult_le_cancel_right_pos)
  moreover have "y + 1 \<le> y * (1 + 1 / 2 ^ 52)" using y1 by (simp add: field_simps)
  ultimately have "y + 1 \<le> real_of_int M'" by linarith
  then have "round_half_even y < M'" by (rule round_half_even_lt)
  then have "real_of_int (round_half_even y) < real_of_int M'"
    by (simp only: of_int_less_iff)
  then have "real_of_int (round_half_even y) * pow2 e < real_of_int M' * pow2 e"
    using p by (simp only: mult_less_cancel_right_pos)
  then have b: "real_of_int (round_half_even y) * pow2 e < real_of_int n + 1"
    using M' by simp
  from a b have "\<lfloor>real_of_int (round_half_even y) * pow2 e\<rfloor> = n"
    by (simp add: floor_unique)
  with r show ?thesis by (simp add: y_def)
qed

lemma rnd_of_int:
  assumes "1 \<le> m" and "m < 2 ^ 53"
  shows "rnd (real_of_int m) = Finite (real_of_int m)"
proof -
  have x1: "1 / 16 \<le> real_of_int m" using assms(1) by simp
  have "real_of_int m < real_of_int (2 ^ 53)" using assms(2) by (simp only: of_int_less_iff)
  then have x2: "real_of_int m < 2 ^ 53" by simp
  from rnd_grid [OF x1 x2] obtain e where e0: "e \<le> 0" and p: "0 < pow2 e"
    and r: "rnd (real_of_int m) =
             Finite (of_int (round_half_even (real_of_int m / pow2 e)) * pow2 e)"
    by blast
  from int_on_grid [OF e0, of m] obtain M where M: "real_of_int m = real_of_int M * pow2 e"
    by blast
  then have "real_of_int m / pow2 e = real_of_int M" using p by simp
  then show ?thesis using r M by (simp add: round_half_even_of_int)
qed

subsection \<open>The percentages of the code and of the formula\<close>

lemma totalPercent_loop_0:
  "totalPercent_loop 0 0 (Finite 0) = Finite (3602879701896397 / 36028797018963968)"
  by (simp add: totalPercent_loop.simps percentages_val float_eval)

lemma totalPercent_loop_1:
  "totalPercent_loop 0 1 (Finite 0) = Finite (1351079888211149 / 4503599627370496)"
  by (simp add: totalPercent_loop.simps percentages_val float_eval)

lemma totalPercent_loop_2:
  "totalPercent_loop 0 2 (Finite 0) = Finite (1351079888211149 / 2251799813685248)"
  by (simp add: totalPercent_loop.simps percentages_val float_eval)

lemma totalPercent_loop_3: "totalPercent_loop 0 3 (Finite 0) = Finite 1"
  by (simp add: totalPercent_loop.simps percentages_val float_eval)

lemma percent_close_0:
  assumes "0 \<le> r" and "r < 12"
  shows "percent_close (code_totalPercent 0 r) (spec_totalPercent 0 r)"
proof -
  note ev = percent_close_def code_totalPercent_def spec_totalPercent_def
    spec_percentages_def totalPercent_loop_0 percentages_val float_eval
  from assms consider "r = 0" | "r = 1" | "r = 2" | "r = 3" | "r = 4" | "r = 5" | "r = 6" | "r = 7" | "r = 8" | "r = 9" | "r = 10" | "r = 11"
    by atomize_elim presburger
  then show ?thesis
  proof cases
    case 1
    then show ?thesis by (simp add: ev)
  next
    case 2
    then show ?thesis by (simp add: ev)
  next
    case 3
    then show ?thesis by (simp add: ev)
  next
    case 4
    then show ?thesis by (simp add: ev)
  next
    case 5
    then show ?thesis by (simp add: ev)
  next
    case 6
    then show ?thesis by (simp add: ev)
  next
    case 7
    then show ?thesis by (simp add: ev)
  next
    case 8
    then show ?thesis by (simp add: ev)
  next
    case 9
    then show ?thesis by (simp add: ev)
  next
    case 10
    then show ?thesis by (simp add: ev)
  next
    case 11
    then show ?thesis by (simp add: ev)
  next
    case 12
    then show ?thesis by (simp add: ev)
  qed
qed

lemma percent_close_1:
  assumes "0 \<le> r" and "r < 12"
  shows "percent_close (code_totalPercent 1 r) (spec_totalPercent 1 r)"
proof -
  note ev = percent_close_def code_totalPercent_def spec_totalPercent_def
    spec_percentages_def totalPercent_loop_1 percentages_val float_eval
  from assms consider "r = 0" | "r = 1" | "r = 2" | "r = 3" | "r = 4" | "r = 5" | "r = 6" | "r = 7" | "r = 8" | "r = 9" | "r = 10" | "r = 11"
    by atomize_elim presburger
  then show ?thesis
  proof cases
    case 1
    then show ?thesis by (simp add: ev)
  next
    case 2
    then show ?thesis by (simp add: ev)
  next
    case 3
    then show ?thesis by (simp add: ev)
  next
    case 4
    then show ?thesis by (simp add: ev)
  next
    case 5
    then show ?thesis by (simp add: ev)
  next
    case 6
    then show ?thesis by (simp add: ev)
  next
    case 7
    then show ?thesis by (simp add: ev)
  next
    case 8
    then show ?thesis by (simp add: ev)
  next
    case 9
    then show ?thesis by (simp add: ev)
  next
    case 10
    then show ?thesis by (simp add: ev)
  next
    case 11
    then show ?thesis by (simp add: ev)
  next
    case 12
    then show ?thesis by (simp add: ev)
  qed
qed

lemma percent_close_2:
  assumes "0 \<le> r" and "r < 12"
  shows "percent_close (code_totalPercent 2 r) (spec_totalPercent 2 r)"
proof -
  note ev = percent_close_def code_totalPercent_def spec_totalPercent_def
    spec_percentages_def totalPercent_loop_2 percentages_val float_eval
  from assms consider "r = 0" | "r = 1" | "r = 2" | "r = 3" | "r = 4" | "r = 5" | "r = 6" | "r = 7" | "r = 8" | "r = 9" | "r = 10" | "r = 11"
    by atomize_elim presburger
  then show ?thesis
  proof cases
    case 1
    then show ?thesis by (simp add: ev)
  next
    case 2
    then show ?thesis by (simp add: ev)
  next
    case 3
    then show ?thesis by (simp add: ev)
  next
    case 4
    then show ?thesis by (simp add: ev)
  next
    case 5
    then show ?thesis by (simp add: ev)
  next
    case 6
    then show ?thesis by (simp add: ev)
  next
    case 7
    then show ?thesis by (simp add: ev)
  next
    case 8
    then show ?thesis by (simp add: ev)
  next
    case 9
    then show ?thesis by (simp add: ev)
  next
    case 10
    then show ?thesis by (simp add: ev)
  next
    case 11
    then show ?thesis by (simp add: ev)
  next
    case 12
    then show ?thesis by (simp add: ev)
  qed
qed

lemma percent_close_3:
  assumes "0 \<le> r" and "r < 12"
  shows "percent_close (code_totalPercent 3 r) (spec_totalPercent 3 r)"
proof -
  note ev = percent_close_def code_totalPercent_def spec_totalPercent_def
    spec_percentages_def totalPercent_loop_3 percentages_val float_eval
  from assms consider "r = 0" | "r = 1" | "r = 2" | "r = 3" | "r = 4" | "r = 5" | "r = 6" | "r = 7" | "r = 8" | "r = 9" | "r = 10" | "r = 11"
    by atomize_elim presburger
  then show ?thesis
  proof cases
    case 1
    then show ?thesis by (simp add: ev)
  next
    case 2
    then show ?thesis by (simp add: ev)
  next
    case 3
    then show ?thesis by (simp add: ev)
  next
    case 4
    then show ?thesis by (simp add: ev)
  next
    case 5
    then show ?thesis by (simp add: ev)
  next
    case 6
    then show ?thesis by (simp add: ev)
  next
    case 7
    then show ?thesis by (simp add: ev)
  next
    case 8
    then show ?thesis by (simp add: ev)
  next
    case 9
    then show ?thesis by (simp add: ev)
  next
    case 10
    then show ?thesis by (simp add: ev)
  next
    case 11
    then show ?thesis by (simp add: ev)
  next
    case 12
    then show ?thesis by (simp add: ev)
  qed
qed

lemma percent_close_ge4:
  assumes "4 \<le> y"
  shows "percent_close (code_totalPercent y r) (spec_totalPercent y r)"
proof -
  have l: "int (length percentages) = 4" by (simp add: percentages_def)
  have m: "min y 3 = 3" using assms by simp
  have "totalPercent_loop 0 y (Finite 0) = totalPercent_loop 0 3 (Finite 0)"
    by (simp add: totalPercent_loop_closed m)
  then have c: "code_totalPercent y r = Finite 1"
    using assms by (simp add: code_totalPercent_def l totalPercent_loop_3)
  have s: "spec_totalPercent y r = 1"
    using assms by (simp add: spec_totalPercent_def spec_percentages_def m)
  show ?thesis by (simp add: c s percent_close_def)
qed

lemma percent_close_all:
  assumes "0 \<le> y" and "0 \<le> r" and "r < 12"
  shows "percent_close (code_totalPercent y r) (spec_totalPercent y r)"
proof -
  consider "y = 0" | "y = 1" | "y = 2" | "y = 3" | "4 \<le> y" using assms(1) by linarith
  then show ?thesis
  proof cases
    case 1
    then show ?thesis using percent_close_0 [OF assms(2,3)] by simp
  next
    case 2
    then show ?thesis using percent_close_1 [OF assms(2,3)] by simp
  next
    case 3
    then show ?thesis using percent_close_2 [OF assms(2,3)] by simp
  next
    case 4
    then show ?thesis using percent_close_3 [OF assms(2,3)] by simp
  next
    case 5
    then show ?thesis by (rule percent_close_ge4)
  qed
qed

lemma floor_product_of_close:
  assumes pc: "percent_close f p" and t0: "0 < t" and tB: "t \<le> 10 ^ 13"
  shows "int_of_float64 oor (Floor (fmul (float64_of_int t) f)) = \<lfloor>real_of_int t * p\<rfloor>"
proof -
  from pc obtain c where f: "f = Finite c"
    and p1: "p \<le> c * (1 + 1 / 2 ^ 54)"
    and p2: "c * (1 + 1 / 2 ^ 52) \<le> p + 1 / (120 * 10 ^ 13)"
    and c1: "1 / 16 \<le> c" and c2: "c \<le> 2"
    and pk: "of_int \<lfloor>120 * p\<rfloor> = 120 * p"
    by (auto simp: percent_close_def split: float64.splits)
  define T where "T = real_of_int t"
  define n where "n = \<lfloor>T * p\<rfloor>"
  define k where "k = \<lfloor>120 * p\<rfloor>"
  have T1: "1 \<le> T" using t0 by (simp add: T_def)
  have "real_of_int t \<le> real_of_int (10 ^ 13)" using tB by (simp only: of_int_le_iff)
  then have TB: "T \<le> 10 ^ 13" by (simp add: T_def)
  have t53: "t < 2 ^ 53" using tB by simp
  have ft: "float64_of_int t = Finite T"
    using rnd_of_int [of t] t0 t53 by (simp add: float64_of_int_def T_def)
  have x1: "1 / 16 \<le> T * c"
  proof -
    have "1 / 16 \<le> 1 * c" using c1 by simp
    also have "\<dots> \<le> T * c" using T1 c1 by (intro mult_right_mono) simp_all
    finally show ?thesis .
  qed
  have "T * c \<le> 10 ^ 13 * 2"
    using TB c2 T1 c1 by (intro mult_mono) simp_all
  then have x2: "T * c < 2 ^ 53" by simp
  have p0: "0 < p"
  proof -
    have "1 / 16 \<le> c * (1 + 1 / 2 ^ 52)" using c1 by (simp add: field_simps)
    with p2 show ?thesis by simp
  qed
  have lo: "real_of_int n \<le> (T * c) * (1 + 1 / 2 ^ 54)"
  proof -
    have "real_of_int n \<le> T * p" by (simp add: n_def)
    also have "\<dots> \<le> T * (c * (1 + 1 / 2 ^ 54))"
      using p1 T1 by (intro mult_left_mono) simp_all
    finally show ?thesis by (simp add: mult.assoc)
  qed
  have "real_of_int k = 120 * p" unfolding k_def by (rule pk)
  then have kp: "p = real_of_int k / 120" by linarith
  have "T * p = real_of_int (t * k) / real_of_int 120" by (simp add: kp T_def)
  then have nd: "n = (t * k) div 120"
    unfolding n_def by (simp only: floor_divide_of_int_eq)
  have "t * k = 120 * n + (t * k) mod 120" by (simp add: nd)
  moreover have "(t * k) mod 120 \<le> 119" by simp
  ultimately have "t * k \<le> 120 * n + 119" by linarith
  then have "real_of_int (t * k) \<le> real_of_int (120 * n + 119)" by (simp only: of_int_le_iff)
  then have tp: "T * p \<le> real_of_int n + 119 / 120" by (simp add: kp T_def)
  have hi: "(T * c) * (1 + 1 / 2 ^ 52) \<le> real_of_int n + 1"
  proof -
    have "T * (c * (1 + 1 / 2 ^ 52)) \<le> T * (p + 1 / (120 * 10 ^ 13))"
      using p2 T1 by (intro mult_left_mono) simp_all
    also have "\<dots> = T * p + T / (120 * 10 ^ 13)" by (simp add: field_simps)
    also have "\<dots> \<le> T * p + 1 / 120" using TB by simp
    also have "\<dots> \<le> real_of_int n + 1" using tp by simp
    finally show ?thesis by (simp add: mult.assoc)
  qed
  from rnd_floor [OF x1 x2 lo hi] obtain v where v: "rnd (T * c) = Finite v" "\<lfloor>v\<rfloor> = n"
    by blast
  have n0: "0 \<le> n" using p0 T1 by (simp add: n_def)
  have "T * p \<le> T * (c * (1 + 1 / 2 ^ 54))"
    using p1 T1 by (intro mult_left_mono) simp_all
  also have "\<dots> \<le> 10 ^ 13 * (2 * (1 + 1 / 2 ^ 54))"
    using TB c2 T1 c1 by (intro mult_mono) simp_all
  also have "\<dots> < 2 ^ 62" by simp
  finally have "T * p < 2 ^ 62" .
  then have "real_of_int n < 2 ^ 62" using of_int_floor_le [of "T * p"] unfolding n_def by linarith
  then have "real_of_int n < real_of_int (2 ^ 62)" by simp
  then have "n < 2 ^ 62" by (simp only: of_int_less_iff)
  with n0 have r: "is_int64 n" by (simp add: is_int64_def)
  show ?thesis
    using v r n0 by (simp add: f ft int_of_float64_def n_def [symmetric] T_def [symmetric])
qed

lemma sdiv_smod_nonneg:
  "0 \<le> a \<Longrightarrow> a sdiv (12::int) = a div 12" "0 \<le> a \<Longrightarrow> a smod (12::int) = a mod 12"
  by (simp_all add: signed_divide_int_def signed_modulo_int_def sgn_if)

lemma backloadedVested_code_totalPercent:
  "backloadedVested oor employee monthsEmployed =
     int_of_float64 oor (Floor (fmul (float64_of_int (TotalUnits employee))
       (code_totalPercent
          (wrap64 (monthsEmployed - CliffMonths (Schedule employee)) sdiv 12)
          (wrap64 (monthsEmployed - CliffMonths (Schedule employee)) smod 12))))"
  by (simp add: backloadedVested_def code_totalPercent_def Let_def)

text \<open>
  C3, for grants of at most \<open>10 ^ 13\<close> units: for a backloaded employee with such a
  grant, a cliff that is not negative and at least the cliff months counted, the
  calculation returns the floor, in exact arithmetic, of the grant times the total
  percentage of the specification: with \<open>elapsed\<close> the months past the cliff,
  \<open>fullYears = elapsed / 12\<close> and \<open>remainderMonths = elapsed % 12\<close>, the sum of the
  tranches 10%, 20%, 30%, 40% of the indices 0 to \<open>fullYears\<close>, at most 3, to which
  \<open>percentages[fullYears] * remainderMonths / 12\<close> is added exactly when
  \<open>fullYears < 4\<close> and \<open>remainderMonths > 0\<close>.
\<close>

theorem backloaded_formula_exact:
  assumes "VestingType (Schedule employee) = ''backloaded''"
    and "0 < TotalUnits employee" and "TotalUnits employee \<le> 10 ^ 13"
    and "0 \<le> CliffMonths (Schedule employee)"
    and "\<not> monthsBetween (StartDate employee) asOfDate < CliffMonths (Schedule employee)"
    and "is_int64 (monthsBetween (StartDate employee) asOfDate)"
  shows "\<exists>r. calculateVesting oor employee asOfDate = Inr r
     \<and> VestedUnits r =
         spec_vested (TotalUnits employee)
           (monthsBetween (StartDate employee) asOfDate) (CliffMonths (Schedule employee))"
proof -
  let ?me = "monthsBetween (StartDate employee) asOfDate"
  let ?c = "CliffMonths (Schedule employee)"
  have e0: "0 \<le> ?me - ?c" using assms(5) by simp
  have w: "wrap64 (?me - ?c) = ?me - ?c"
    using assms(4,5,6) by (simp add: wrap64_def is_int64_def)
  have pc: "percent_close (code_totalPercent ((?me - ?c) div 12) ((?me - ?c) mod 12))
              (spec_totalPercent ((?me - ?c) div 12) ((?me - ?c) mod 12))"
    using e0 by (intro percent_close_all) (simp_all add: pos_imp_zdiv_nonneg_iff)
  have "backloadedVested oor employee ?me = spec_vested (TotalUnits employee) ?me ?c"
    unfolding backloadedVested_code_totalPercent w sdiv_smod_nonneg [OF e0]
    using floor_product_of_close [OF pc assms(2,3)]
    by (simp add: spec_vested_def Let_def)
  then show ?thesis
    using assms(1,2,5) by (simp add: calculateVesting_def Let_def)
qed

theorem backloaded_formula_exact_witness:
  "VestingType (Schedule back2) = ''backloaded''
   \<and> 0 < TotalUnits back2 \<and> TotalUnits back2 \<le> 10 ^ 13
   \<and> 0 \<le> CliffMonths (Schedule back2)
   \<and> \<not> monthsBetween (StartDate back2) (Date 2023 7 1) < CliffMonths (Schedule back2)
   \<and> is_int64 (monthsBetween (StartDate back2) (Date 2023 7 1))
   \<and> spec_vested (TotalUnits back2) (monthsBetween (StartDate back2) (Date 2023 7 1))
        (CliffMonths (Schedule back2)) = 16000
   \<and> (\<exists>r. calculateVesting oor_amd64 back2 (Date 2023 7 1) = Inr r
          \<and> VestedUnits r = 16000)"
proof -
  have f: "TotalUnits back2 = 40000" "StartDate back2 = Date 2021 1 1"
    "CliffMonths (Schedule back2) = 12" "VestingType (Schedule back2) = ''backloaded''"
    by (simp_all add: back2_def)
  have h1: "VestingType (Schedule back2) = ''backloaded''" by (simp add: f)
  have h2: "0 < TotalUnits back2" and h3: "TotalUnits back2 \<le> 10 ^ 13"
    and h4: "0 \<le> CliffMonths (Schedule back2)" by (simp_all add: f)
  have h5: "\<not> monthsBetween (StartDate back2) (Date 2023 7 1) < CliffMonths (Schedule back2)"
    by (simp add: f monthsBetween_30)
  have h6: "is_int64 (monthsBetween (StartDate back2) (Date 2023 7 1))"
    by (simp add: f monthsBetween_30 is_int64_def)
  have s: "spec_vested (TotalUnits back2) (monthsBetween (StartDate back2) (Date 2023 7 1))
        (CliffMonths (Schedule back2)) = 16000"
    by (simp add: f monthsBetween_30 spec_vested_def spec_totalPercent_def
          spec_percentages_def)
  from backloaded_formula_exact [OF h1 h2 h3 h4 h5 h6, of oor_amd64] obtain r where
    "calculateVesting oor_amd64 back2 (Date 2023 7 1) = Inr r"
    "VestedUnits r = spec_vested (TotalUnits back2)
        (monthsBetween (StartDate back2) (Date 2023 7 1)) (CliffMonths (Schedule back2))"
    by blast
  with s have "\<exists>r. calculateVesting oor_amd64 back2 (Date 2023 7 1) = Inr r
          \<and> VestedUnits r = 16000" by auto
  with h1 h2 h3 h4 h5 h6 s show ?thesis by blast
qed

lemma backloadedVested_big30: "backloadedVested oor big30 30 = 3036493863637876"
  by (simp add: backloadedVested_def big30_def wrap64_def totalPercent_loop_2
        percentages_val float_eval)

lemma spec_vested_big30: "spec_vested 4048658484850501 30 0 = 3036493863637875"
  by (simp add: spec_vested_def spec_totalPercent_def spec_percentages_def)

lemma addMonths_2023_7_1: "addMonths (Date 2023 7 1) 1 = Date 2023 8 1"
  by (simp add: time_eval)

text \<open>
  C3 without the bound on the grant fails: with 4048658484850501 units, no cliff and 30
  months counted (two full years and six months, 75% in total) the code returns
  3036493863637876 vested units, and the floor of the grant times 75% is
  3036493863637875.
\<close>

theorem backloaded_formula_counterexample:
  "VestingType (Schedule big30) = ''backloaded''
   \<and> 0 < TotalUnits big30
   \<and> \<not> monthsBetween (StartDate big30) (Date 2023 7 1) < CliffMonths (Schedule big30)
   \<and> calculateVesting oor_amd64 big30 (Date 2023 7 1) =
       Inr \<lparr>EmployeeID = ''big30'', VestedUnits = 3036493863637876,
            UnvestedUnits = 1012164621212625, NextVestDate = Date 2023 8 1,
            AsOfDate = Date 2023 7 1\<rparr>
   \<and> spec_vested (TotalUnits big30) (monthsBetween (StartDate big30) (Date 2023 7 1))
        (CliffMonths (Schedule big30)) = 3036493863637875"
proof -
  have f: "TotalUnits big30 = 4048658484850501" "StartDate big30 = Date 2021 1 1"
    "CliffMonths (Schedule big30) = 0" "VestingType (Schedule big30) = ''backloaded''"
    "ID big30 = ''big30''"
    by (simp_all add: big30_def)
  show ?thesis
    by (simp add: calculateVesting_def Let_def f monthsBetween_30 backloadedVested_big30
          spec_vested_big30 addMonths_2023_7_1 wrap64_def)
qed

section \<open>The calculation at inputs of the tests\<close>

lemma monthsBetween_24: "monthsBetween (Date 2021 1 1) (Date 2023 1 1) = 24"
  by (simp add: monthsBetween_def monthsBetween_loop.simps time_eval)

lemma monthsBetween_53: "monthsBetween (Date 2020 1 1) (Date 2024 6 1) = 53"
  by (simp add: monthsBetween_def monthsBetween_loop.simps time_eval)

lemma monthsBetween_60: "monthsBetween (Date 2018 1 1) (Date 2023 1 1) = 60"
  by (simp add: monthsBetween_def monthsBetween_loop.simps time_eval)

lemma backloadedVested_back1: "backloadedVested oor back1 24 = 12000"
  by (simp add: backloadedVested_def back1_def wrap64_def totalPercent_loop_1
        percentages_val float_eval)

lemma backloadedVested_back3: "backloadedVested oor back3 53 = 46666"
  by (simp add: backloadedVested_def back3_def wrap64_def totalPercent_loop_3
        percentages_val float_eval)

lemma linearVested_lin60: "linearVested oor lin60 60 = 7899"
  by (simp add: linearVested_def lin60_def vestingMonthsAfterCliff_def wrap64_def float_eval)

lemma addMonths_2023_1_1: "addMonths (Date 2023 1 1) 1 = Date 2023 2 1"
  by (simp add: time_eval)

text \<open>
  C2: the backloaded employee of the test "End of year 1" (start 2021-01-01, cliff 12,
  vesting 48, 40000 units) at 2023-01-01: 24 months are counted, 12 past the cliff, and
  the calculation returns 12000 vested units, which is 30% of the grant, where the claim
  and the test expect 10%, 4000 units.
\<close>

theorem backloaded_end_of_year_1:
  "monthsBetween (StartDate back1) (Date 2023 1 1) = 24
   \<and> calculateVesting oor back1 (Date 2023 1 1) =
      Inr \<lparr>EmployeeID = ''back1'', VestedUnits = 12000, UnvestedUnits = 28000,
           NextVestDate = Date 2023 2 1, AsOfDate = Date 2023 1 1\<rparr>"
proof -
  have f: "TotalUnits back1 = 40000" "StartDate back1 = Date 2021 1 1"
    "CliffMonths (Schedule back1) = 12" "VestingType (Schedule back1) = ''backloaded''"
    "ID back1 = ''back1''"
    by (simp_all add: back1_def)
  show ?thesis
    by (simp add: calculateVesting_def Let_def f monthsBetween_24 backloadedVested_back1
          addMonths_2023_1_1 wrap64_def)
qed

text \<open>
  C4: a linear employee with an accepted schedule (no cliff, 60 months) and 7900 units,
  60 months after the start: the whole vesting length has passed and the calculation
  returns 7899 vested units, one less than the grant.
\<close>

theorem linear_fully_vested_short:
  "ValidateSchedule (Schedule lin60) = None
   \<and> VestingMonths (Schedule lin60) \<le> monthsBetween (StartDate lin60) (Date 2023 1 1)
   \<and> calculateVesting oor lin60 (Date 2023 1 1) =
      Inr \<lparr>EmployeeID = ''lin60'', VestedUnits = 7899, UnvestedUnits = 1,
           NextVestDate = Date 2023 2 1, AsOfDate = Date 2023 1 1\<rparr>"
proof -
  have f: "TotalUnits lin60 = 7900" "StartDate lin60 = Date 2018 1 1"
    "CliffMonths (Schedule lin60) = 0" "VestingMonths (Schedule lin60) = 60"
    "VestingType (Schedule lin60) = ''linear''" "ID lin60 = ''lin60''"
    by (simp_all add: lin60_def)
  have v: "ValidateSchedule (Schedule lin60) = None"
    by (simp add: ValidateSchedule_def f)
  show ?thesis
    by (simp add: v calculateVesting_def Let_def f monthsBetween_60 linearVested_lin60
          addMonths_2023_1_1 wrap64_def)
qed

text \<open>
  C5: the backloaded employee of the test "End of year 3" (start 2020-01-01, cliff 12,
  vesting 48, 40000 units) at 2024-06-01: 53 months are counted and the calculation
  returns 46666 vested units, more than the grant, and -6666 unvested units.
\<close>

theorem backloaded_vested_exceeds_total:
  "calculateVesting oor back3 (Date 2024 6 1) =
      Inr \<lparr>EmployeeID = ''back3'', VestedUnits = 46666, UnvestedUnits = - 6666,
           NextVestDate = zeroTime, AsOfDate = Date 2024 6 1\<rparr>"
proof -
  have f: "TotalUnits back3 = 40000" "StartDate back3 = Date 2020 1 1"
    "CliffMonths (Schedule back3) = 12" "VestingType (Schedule back3) = ''backloaded''"
    "ID back3 = ''back3''"
    by (simp_all add: back3_def)
  show ?thesis
    by (simp add: calculateVesting_def Let_def f monthsBetween_53 backloadedVested_back3
          wrap64_def)
qed

section \<open>The mutex\<close>

text \<open>
  C1: \<open>GetResult\<close> and \<open>ClearCache\<close> touch the cache while holding the mutex, but the
  goroutine that \<open>ProcessBatch\<close> starts for an employee whose calculation succeeds (here
  the employee of the test "Before cliff") writes to the map without holding it.
\<close>

theorem worker_write_not_guarded:
  "guarded False (GetResult_actions employeeID)
   \<and> guarded False ClearCache_actions
   \<and> worker_actions oor (Date 2023 11 1) emp1 = [WriteMap ''emp1'']
   \<and> \<not> guarded False (worker_actions oor (Date 2023 11 1) emp1)"
  by (simp add: GetResult_actions_def ClearCache_actions_def worker_actions_def
        calculateVesting_emp1 emp1_fields)





end
